theory Spec2Isabelle
  imports Main
begin

section \<open>Command-line helpers of \<^verbatim>\<open>src/core/utils/cli.ts\<close>\<close>

text \<open>
  The file holds three functions: \<^verbatim>\<open>argv\<close> (reads one flag out of the process
  arguments), \<^verbatim>\<open>registerProcessExit\<close> (runs a callback once on termination) and
  \<^verbatim>\<open>createStartupScriptCommand\<close> (turns a startup script reference into a command).
  Each is embedded below as a HOL function; what the TypeScript takes from its
  surroundings (\<^verbatim>\<open>process.argv\<close>, the \<^verbatim>\<open>path\<close> and \<^verbatim>\<open>fs\<close> modules, the logger) is
  an explicit argument.
\<close>

subsection \<open>JavaScript strings\<close>

text \<open>
  A JavaScript string is modelled as a \<^typ>\<open>string\<close>, one \<^typ>\<open>char\<close> per code unit;
  the model therefore covers the strings whose code units are below 256.
  \<^verbatim>\<open>String.prototype.trim\<close> strips white space and line terminators from both
  ends; in that range these are TAB, LF, VT, FF, CR, SPACE and NBSP.
\<close>

definition isWhiteSpace :: "char \<Rightarrow> bool" where
  "isWhiteSpace c \<longleftrightarrow>
     c \<in> set [CHR 0x09, CHR 0x0A, CHR 0x0B, CHR 0x0C, CHR 0x0D, CHR 0x20, CHR 0xA0]"

definition trim :: "string \<Rightarrow> string" where
  "trim s = rev (dropWhile isWhiteSpace (rev (dropWhile isWhiteSpace s)))"

text \<open>\<^verbatim>\<open>s.startsWith(p)\<close>.\<close>

definition startsWith :: "string \<Rightarrow> string \<Rightarrow> bool" where
  "startsWith p s \<longleftrightarrow> take (length p) s = p"

text \<open>\<^verbatim>\<open>s.includes(c)\<close> for a one-character needle.\<close>

definition str_includes :: "char \<Rightarrow> string \<Rightarrow> bool" where
  "str_includes c s \<longleftrightarrow> c \<in> set s"

text \<open>
  \<^verbatim>\<open>s.split(c)\<close> for a one-character separator: the segments between the
  occurrences of the separator, empty segments kept; the result is never empty
  (\<^verbatim>\<open>"".split("=")\<close> is \<^verbatim>\<open>[""]\<close>).
\<close>

fun split :: "char \<Rightarrow> string \<Rightarrow> string list" where
  "split c [] = [[]]"
| "split c (x # xs) =
     (if x = c then [] # split c xs
      else (case split c xs of
              [] \<Rightarrow> [[x]]
            | seg # segs \<Rightarrow> (x # seg) # segs))"

text \<open>\<^verbatim>\<open>segments.join(sep)\<close>.\<close>

fun join :: "string \<Rightarrow> string list \<Rightarrow> string" where
  "join sep [] = []"
| "join sep [seg] = seg"
| "join sep (seg # segs) = seg @ sep @ join sep segs"

subsection \<open>\<^verbatim>\<open>argv\<close>\<close>

text \<open>
  The result type \<^verbatim>\<open>T extends string | number | boolean | null\<close>. The function
  only ever produces strings, booleans and \<^verbatim>\<open>null\<close>.
\<close>

datatype flag_value = VString string | VBool bool | VNull

text \<open>
  The body of the \<^verbatim>\<open>for\<close> loop at one index: \<open>Some v\<close> when the iteration executes
  \<^verbatim>\<open>return v\<close>, \<open>None\<close> when it falls through to the next index. The optional
  chain \<^verbatim>\<open>flags[index + 1]?.trim()\<close> is \<open>None\<close> (\<^verbatim>\<open>undefined\<close>) past the end of the
  array. In the destructuring \<^verbatim>\<open>[key, value] = entry.split("=")\<close> a missing second
  segment leaves \<^verbatim>\<open>value\<close> undefined, which is falsy like the empty string.
\<close>

definition loop_body :: "string list \<Rightarrow> string \<Rightarrow> nat \<Rightarrow> flag_value option" where
  "loop_body flags flag index =
     (let entry = flags ! index in
      if startsWith ''--'' entry then
        if str_includes CHR ''='' entry then
          (case split CHR ''='' entry of
             [] \<Rightarrow> None
           | [key] \<Rightarrow> if flag = trim key then Some VNull else None
           | key # value # _ \<Rightarrow>
               if flag = trim key
               then Some (if value \<noteq> [] then VString (trim value) else VNull)
               else None)
        else if flag = trim entry then
          (let nextEntry =
                 (if Suc index < length flags then Some (trim (flags ! Suc index)) else None)
           in case nextEntry of
                None \<Rightarrow> Some (VBool True)
              | Some next \<Rightarrow>
                  if startsWith ''--'' next then Some (VBool True)
                  else if next \<noteq> [] then Some (VString next)
                  else None)
        else Some (VBool False)
      else None)"

function argv_loop :: "string list \<Rightarrow> string \<Rightarrow> nat \<Rightarrow> flag_value" where
  "argv_loop flags flag index =
     (if index < length flags then
        (case loop_body flags flag index of
           Some v \<Rightarrow> v
         | None \<Rightarrow> argv_loop flags flag (Suc index))
      else VNull)"
  by pat_completeness auto
termination
  by (relation "measure (\<lambda>(flags, flag, index). length flags - index)") auto

declare argv_loop.simps [simp del]

text \<open>\<^verbatim>\<open>argv(flag)\<close>, with \<^verbatim>\<open>process.argv\<close> as the first argument.\<close>

definition argv :: "string list \<Rightarrow> string \<Rightarrow> flag_value" where
  "argv flags flag = argv_loop flags flag 0"

subsection \<open>\<^verbatim>\<open>registerProcessExit\<close>\<close>

text \<open>
  The three channels the wrapper is subscribed to with \<^verbatim>\<open>process.on\<close>.
\<close>

datatype trigger = SIGINT | SIGTERM | EXIT

text \<open>
  One call of \<^verbatim>\<open>registerProcessExit\<close> creates one closure variable \<^verbatim>\<open>terminated\<close>.
  The field \<open>invocations\<close> is a history kept for the proofs: every call of \<^verbatim>\<open>fn\<close>
  appends the value that \<^verbatim>\<open>terminated\<close> has at the moment of the call.
\<close>

record registration =
  terminated :: bool
  invocations :: "bool list"

text \<open>
  \<^verbatim>\<open>fn\<close> is any function. It cannot reach the closure variable, but it can make
  the process deliver further triggers while it runs (\<^verbatim>\<open>process.emit\<close>), which
  calls the wrapper again before \<^verbatim>\<open>fn\<close> has returned. The callback is therefore
  given by the triggers it raises, in order. \<open>wrapper body\<close> is the arrow function
  \<^verbatim>\<open>wrapper\<close> for a callback that behaves as \<open>body\<close>; \<open>fn body ts\<close> runs what is
  left (\<open>ts\<close>) of the callback.
\<close>

function wrapper :: "trigger list \<Rightarrow> registration \<Rightarrow> registration"
  and fn :: "trigger list \<Rightarrow> trigger list \<Rightarrow> registration \<Rightarrow> registration" where
  "wrapper body r =
     (if \<not> terminated r then
        (let r1 = r\<lparr>terminated := True\<rparr>
         in fn body body (r1\<lparr>invocations := invocations r1 @ [terminated r1]\<rparr>))
      else r)"
| "fn body [] r = r"
| "fn body (t # ts) r = fn body ts (wrapper body r)"
  by pat_completeness auto
termination
  by (relation "measures
        [\<lambda>x. case x of
                Inl (body, r) \<Rightarrow> if terminated r then 0 else 1
              | Inr (body, ts, r) \<Rightarrow> if terminated r then 0 else 1,
         \<lambda>x. case x of
                Inl (body, r) \<Rightarrow> 0
              | Inr (body, ts, r) \<Rightarrow> Suc (length ts)]")
     (auto simp: wrapper.psimps)

text \<open>
  \<^verbatim>\<open>registerProcessExit(fn)\<close>: a fresh guard, and the same wrapper on each of the
  three channels.
\<close>

definition registerProcessExit :: registration where
  "registerProcessExit = \<lparr>terminated = False, invocations = []\<rparr>"

fun emit :: "trigger list \<Rightarrow> trigger \<Rightarrow> registration \<Rightarrow> registration" where
  "emit body SIGINT r = wrapper body r"
| "emit body SIGTERM r = wrapper body r"
| "emit body EXIT r = wrapper body r"

text \<open>A sequence of triggers delivered one after the other.\<close>

fun deliver :: "trigger list \<Rightarrow> trigger list \<Rightarrow> registration \<Rightarrow> registration" where
  "deliver body [] r = r"
| "deliver body (t # ts) r = deliver body ts (emit body t r)"

subsection \<open>\<^verbatim>\<open>createStartupScriptCommand\<close>\<close>

text \<open>The one field of \<^verbatim>\<open>SWACLIConfig\<close> that is read; it is optional.\<close>

record SWACLIConfig =
  appLocation :: "string option"

text \<open>
  What the function uses of Node: \<^verbatim>\<open>path.isAbsolute\<close>, \<^verbatim>\<open>path.resolve\<close> (of two
  arguments), \<^verbatim>\<open>fs.existsSync\<close> and \<^verbatim>\<open>process.cwd()\<close>.
\<close>

record node =
  path_isAbsolute :: "string \<Rightarrow> bool"
  path_resolve :: "string \<Rightarrow> string \<Rightarrow> string"
  fs_existsSync :: "string \<Rightarrow> bool"
  process_cwd :: string

text \<open>
  Modelled from the spec: the logger of \<^verbatim>\<open>./logger\<close>, whose source is not part of
  the excerpt. The spec gives it the interface \<^verbatim>\<open>error(message: string, fatal: boolean) -> void\<close>;
  the model keeps the calls it has received, in order, and returns.
\<close>

type_synonym logger = "(string \<times> bool) list"

definition logger_error :: "string \<Rightarrow> bool \<Rightarrow> logger \<Rightarrow> logger" where
  "logger_error message fatal lg = lg @ [(message, fatal)]"

text \<open>
  The result is the returned value (\<open>None\<close> for \<^verbatim>\<open>null\<close>) and the logger after the
  call. \<^verbatim>\<open>appLocation || process.cwd()\<close> takes the working directory when
  \<^verbatim>\<open>appLocation\<close> is undefined or the empty string.
\<close>

definition createStartupScriptCommand ::
  "node \<Rightarrow> string \<Rightarrow> SWACLIConfig \<Rightarrow> logger \<Rightarrow> string option \<times> logger" where
  "createStartupScriptCommand nd startupScript options lg =
     (if str_includes CHR '':'' startupScript then
        (case split CHR '':'' startupScript of
           [] \<Rightarrow> (None, lg)
         | npmOrYarnBin # npmOrYarnScript \<Rightarrow>
             if npmOrYarnBin \<in> set [''npm'', ''yarn'']
             then (Some (npmOrYarnBin @ '' run '' @ join '':'' npmOrYarnScript @ '' --if-present''), lg)
             else if npmOrYarnBin \<in> set [''npx'']
             then (Some (npmOrYarnBin @ '' '' @ join '':'' npmOrYarnScript), lg)
             else (None, lg))
      else
        (let startupScript' =
               (if \<not> path_isAbsolute nd startupScript then
                  (let cwd = (case appLocation options of
                                None \<Rightarrow> process_cwd nd
                              | Some a \<Rightarrow> if a \<noteq> [] then a else process_cwd nd)
                   in path_resolve nd cwd startupScript)
                else startupScript)
         in if fs_existsSync nd startupScript' then (Some startupScript', lg)
            else (None,
                  logger_error
                    (''Script file '' @ [CHR 0x22] @ startupScript' @ [CHR 0x22] @ '' was not found.'')
                    True lg)))"

subsection \<open>Notions used to state the properties\<close>

text \<open>
  The loop gets to iteration \<open>index\<close>: the index is within the array and no earlier
  iteration has returned.
\<close>

definition scan_reaches :: "string list \<Rightarrow> string \<Rightarrow> nat \<Rightarrow> bool" where
  "scan_reaches flags flag index \<longleftrightarrow>
     index < length flags \<and> (\<forall>j \<in> {0..<index}. loop_body flags flag j = None)"

text \<open>
  The two matching rules of the specification: a \<^verbatim>\<open>--key=value\<close> token whose
  trimmed key is the flag, or a \<^verbatim>\<open>--key\<close> token that is the flag after trimming.
\<close>

definition matches_flag :: "string \<Rightarrow> string \<Rightarrow> bool" where
  "matches_flag flag entry \<longleftrightarrow>
     startsWith ''--'' entry \<and>
     (if str_includes CHR ''='' entry
      then trim (hd (split CHR ''='' entry)) = flag
      else trim entry = flag)"

text \<open>A token that starts with \<^verbatim>\<open>--\<close> and holds no \<^verbatim>\<open>=\<close>.\<close>

definition bare_flag :: "string \<Rightarrow> bool" where
  "bare_flag entry \<longleftrightarrow> startsWith ''--'' entry \<and> \<not> str_includes CHR ''='' entry"

text \<open>
  The path a reference without \<^verbatim>\<open>:\<close> stands for: itself when absolute, otherwise
  resolved against \<^verbatim>\<open>appLocation\<close>, or against the working directory when
  \<^verbatim>\<open>appLocation\<close> is unset (undefined or empty, which \<^verbatim>\<open>||\<close> treats alike).
\<close>

definition resolved :: "node \<Rightarrow> string \<Rightarrow> SWACLIConfig \<Rightarrow> string" where
  "resolved nd startupScript options =
     (if path_isAbsolute nd startupScript then startupScript
      else path_resolve nd
             (if appLocation options = None \<or> appLocation options = Some [] then process_cwd nd
              else the (appLocation options))
             startupScript)"

text \<open>
  A small POSIX-like Node for the examples: absolute paths start with \<^verbatim>\<open>/\<close>, a
  relative base is taken below the working directory, and a single file exists.
\<close>

definition posix :: node where
  "posix = \<lparr>path_isAbsolute = (\<lambda>p. startsWith ''/'' p),
            path_resolve = (\<lambda>base p.
               (if startsWith ''/'' base then base else ''/home/user/'' @ base) @ ''/'' @ p),
            fs_existsSync = (\<lambda>p. p = ''/app/dist/server.js''),
            process_cwd = ''/home/user''\<rparr>"


section \<open>Properties\<close>

subsection \<open>Splitting and joining\<close>

lemma split_not_Nil: "split c s \<noteq> []"
  by (induction s) (auto split: list.splits)


lemma split_append_sep: "c \<notin> set a \<Longrightarrow> split c (a @ c # b) = a # split c b"
  by (induction a) auto

lemma split_with_sep: "c \<in> set s \<Longrightarrow> \<exists>seg0 seg1 segs. split c s = seg0 # seg1 # segs"
proof -
  assume "c \<in> set s"
  then obtain a b where "s = a @ c # b" and "c \<notin> set a"
    by (auto dest: split_list_first)
  then have "split c s = a # split c b" by (simp add: split_append_sep)
  moreover obtain x xs where "split c b = x # xs"
    using split_not_Nil [of c b] by (cases "split c b") auto
  ultimately show ?thesis by auto
qed

text \<open>Joining the segments with the separator gives the string back.\<close>

lemma join_split: "join [c] (split c s) = s"
proof (induction s)
  case Nil
  show ?case by simp
next
  case (Cons x xs)
  obtain seg segs where sp: "split c xs = seg # segs"
    using split_not_Nil [of c xs] by (cases "split c xs") auto
  show ?case
  proof (cases "x = c")
    case True
    with Cons sp show ?thesis by simp
  next
    case False
    with Cons sp show ?thesis by (cases segs) auto
  qed
qed

lemma split_head_tail:
  "split c s = seg # segs \<Longrightarrow> segs \<noteq> [] \<Longrightarrow> s = seg @ c # join [c] segs"
  using join_split [of c s] by (cases segs) auto

lemma startsWith_append: "startsWith p a \<Longrightarrow> startsWith p (a @ b)"
  unfolding startsWith_def
  by (metis append_eq_conv_conj append_take_drop_id append.assoc)

lemma set_dropWhile_keeps: "x \<in> set xs \<Longrightarrow> \<not> P x \<Longrightarrow> x \<in> set (dropWhile P xs)"
  by (induction xs) auto

lemma trim_keeps: "c \<in> set s \<Longrightarrow> \<not> isWhiteSpace c \<Longrightarrow> c \<in> set (trim s)"
  by (simp add: trim_def set_dropWhile_keeps)

lemma trim_subset: "set (trim s) \<subseteq> set s"
proof
  fix x assume "x \<in> set (trim s)"
  then have "x \<in> set (dropWhile isWhiteSpace (rev (dropWhile isWhiteSpace s)))"
    by (simp add: trim_def)
  then have "x \<in> set (rev (dropWhile isWhiteSpace s))" by (rule set_dropWhileD)
  then have "x \<in> set (dropWhile isWhiteSpace s)" by simp
  then show "x \<in> set s" by (rule set_dropWhileD)
qed

subsection \<open>The loop of \<^verbatim>\<open>argv\<close>\<close>

lemma argv_loop_return:
  "index < length flags \<Longrightarrow> loop_body flags flag index = Some v \<Longrightarrow>
   argv_loop flags flag index = v"
  by (subst argv_loop.simps) simp

lemma argv_loop_continue:
  "index < length flags \<Longrightarrow> loop_body flags flag index = None \<Longrightarrow>
   argv_loop flags flag index = argv_loop flags flag (Suc index)"
  by (subst argv_loop.simps) simp

lemma argv_loop_skip:
  "i \<le> length flags \<Longrightarrow> \<forall>j<i. loop_body flags flag j = None \<Longrightarrow>
   argv_loop flags flag 0 = argv_loop flags flag i"
proof (induction i)
  case 0
  show ?case by simp
next
  case (Suc i)
  then have "argv_loop flags flag 0 = argv_loop flags flag i" by simp
  also have "\<dots> = argv_loop flags flag (Suc i)"
    using Suc.prems by (intro argv_loop_continue) auto
  finally show ?case .
qed

text \<open>What the iteration that the loop reaches returns is the result of \<^verbatim>\<open>argv\<close>.\<close>

lemma argv_returns_at:
  assumes "scan_reaches flags flag index" and "loop_body flags flag index = Some v"
  shows "argv flags flag = v"
proof -
  from assms(1) have lt: "index < length flags"
    and skip: "\<forall>j<index. loop_body flags flag j = None"
    by (auto simp: scan_reaches_def)
  have "argv flags flag = argv_loop flags flag index"
    unfolding argv_def using lt skip by (intro argv_loop_skip) auto
  also have "\<dots> = v" using lt assms(2) by (rule argv_loop_return)
  finally show ?thesis .
qed

text \<open>The three kinds of token, one lemma each.\<close>

lemma loop_body_not_flag:
  "\<not> startsWith ''--'' (flags ! index) \<Longrightarrow> loop_body flags flag index = None"
  by (simp add: loop_body_def)

lemma loop_body_assignment:
  assumes "flags ! index = key @ CHR ''='' # rest"
    and "startsWith ''--'' key" and "CHR ''='' \<notin> set key"
  shows "loop_body flags flag index =
           (if flag = trim key
            then Some (if hd (split CHR ''='' rest) \<noteq> []
                       then VString (trim (hd (split CHR ''='' rest))) else VNull)
            else None)"
proof -
  obtain v vs where sp: "split CHR ''='' rest = v # vs"
    using split_not_Nil [of "CHR ''=''" rest] by (cases "split CHR ''='' rest") auto
  have "split CHR ''='' (flags ! index) = key # v # vs"
    using assms(1,3) sp by (simp add: split_append_sep)
  moreover have "startsWith ''--'' (flags ! index)"
    using assms(1,2) by (simp add: startsWith_append)
  moreover have "str_includes CHR ''='' (flags ! index)"
    using assms(1) by (simp add: str_includes_def)
  ultimately show ?thesis
    using sp by (simp add: loop_body_def)
qed

lemma loop_body_bare:
  assumes "startsWith ''--'' (flags ! index)" and "\<not> str_includes CHR ''='' (flags ! index)"
  shows "loop_body flags flag index =
           (if flag = trim (flags ! index) then
              (if Suc index < length flags then
                 (if startsWith ''--'' (trim (flags ! Suc index)) then Some (VBool True)
                  else if trim (flags ! Suc index) \<noteq> []
                  then Some (VString (trim (flags ! Suc index)))
                  else None)
               else Some (VBool True))
            else Some (VBool False))"
  using assms by (simp add: loop_body_def)

text \<open>
  A token that matches by neither rule ends the scan with \<^verbatim>\<open>false\<close> when it is a
  bare \<^verbatim>\<open>--\<close> token, and is passed over otherwise; in particular a
  \<^verbatim>\<open>--key=value\<close> token for another key is passed over.
\<close>

lemma loop_body_unmatched:
  assumes "\<not> matches_flag flag (flags ! index)"
  shows "loop_body flags flag index =
           (if bare_flag (flags ! index) then Some (VBool False) else None)"
proof (cases "startsWith ''--'' (flags ! index)")
  case False
  then show ?thesis by (simp add: loop_body_not_flag bare_flag_def)
next
  case dashes: True
  show ?thesis
  proof (cases "str_includes CHR ''='' (flags ! index)")
    case False
    with dashes assms show ?thesis
      by (auto simp: loop_body_bare bare_flag_def matches_flag_def)
  next
    case True
    then obtain key v vs where sp: "split CHR ''='' (flags ! index) = key # v # vs"
      unfolding str_includes_def using split_with_sep by blast
    with dashes True assms have "flag \<noteq> trim key"
      by (auto simp: matches_flag_def)
    with dashes True sp show ?thesis
      by (simp add: loop_body_def bare_flag_def)
  qed
qed

lemma argv_loop_unmatched:
  assumes "\<forall>entry \<in> set flags. \<not> matches_flag flag entry"
  shows "argv_loop flags flag index =
           (if \<exists>entry \<in> set (drop index flags). bare_flag entry then VBool False else VNull)"
proof (induction "length flags - index" arbitrary: index)
  case 0
  then have "\<not> index < length flags" by simp
  then show ?case by (subst argv_loop.simps) simp
next
  case (Suc n)
  then have lt: "index < length flags" by simp
  then have "\<not> matches_flag flag (flags ! index)" using assms by simp
  then have body: "loop_body flags flag index =
      (if bare_flag (flags ! index) then Some (VBool False) else None)"
    by (rule loop_body_unmatched)
  have dr: "drop index flags = flags ! index # drop (Suc index) flags"
    using lt by (simp add: Cons_nth_drop_Suc)
  show ?case
  proof (cases "bare_flag (flags ! index)")
    case True
    with body lt have "argv_loop flags flag index = VBool False"
      by (simp add: argv_loop_return)
    with True dr show ?thesis by simp
  next
    case False
    with body lt have "argv_loop flags flag index = argv_loop flags flag (Suc index)"
      by (simp add: argv_loop_continue)
    also have "\<dots> = (if \<exists>entry \<in> set (drop (Suc index) flags). bare_flag entry
                      then VBool False else VNull)"
      using Suc.hyps by (intro Suc.hyps(1)) simp
    finally show ?thesis using False dr by simp
  qed
qed

text \<open>
  What \<^verbatim>\<open>argv\<close> returns when no token matches the flag: \<^verbatim>\<open>null\<close> only if the list
  holds no bare \<^verbatim>\<open>--\<close> token at all, \<^verbatim>\<open>false\<close> as soon as it holds one.
\<close>

lemma argv_unmatched:
  assumes "\<forall>entry \<in> set flags. \<not> matches_flag flag entry"
  shows "argv flags flag =
           (if \<exists>entry \<in> set flags. bare_flag entry then VBool False else VNull)"
  using argv_loop_unmatched [OF assms, of 0] by (simp add: argv_def)


subsection \<open>Claims about \<^verbatim>\<open>argv\<close>\<close>

text \<open>
  C1. The claim: the scan is a full linear scan, so that a \<^verbatim>\<open>--\<close> token which is
  not the flag does not end it and a later occurrence of the flag is still found.
  The code does not do this. With \<^verbatim>\<open>--port 4242\<close> alone, or behind a
  \<^verbatim>\<open>--open=1\<close> token for another key, the value \<^verbatim>\<open>4242\<close> is returned, as the
  documentation of the function says; behind the bare token \<^verbatim>\<open>--verbose\<close> the
  branch \<^verbatim>\<open>return false\<close> of that token ends the loop, although the fourth token
  matches the flag.
\<close>

theorem argv_early_return:
  "argv [''node'', ''server.js'', ''--port'', ''4242''] ''--port'' = VString ''4242''
   \<and> argv [''node'', ''server.js'', ''--open=1'', ''--port'', ''4242''] ''--port''
       = VString ''4242''
   \<and> matches_flag ''--port'' ([''node'', ''server.js'', ''--verbose'', ''--port'', ''4242''] ! 3)
   \<and> argv [''node'', ''server.js'', ''--verbose'', ''--port'', ''4242''] ''--port''
       = VBool False"
  by code_simp

text \<open>
  C2. The claim: when the flag is matched nowhere in the list, by neither rule,
  \<^verbatim>\<open>argv\<close> returns \<^verbatim>\<open>null\<close>. The code does so for a list without bare \<^verbatim>\<open>--\<close>
  tokens; with the unrelated token \<^verbatim>\<open>--verbose\<close> in the list, and no token
  matching \<^verbatim>\<open>--port\<close>, the same early \<^verbatim>\<open>return false\<close> makes the result
  \<^verbatim>\<open>false\<close>.
\<close>

theorem argv_unmatched_false:
  "filter (matches_flag ''--port'') [''node'', ''server.js'', ''--verbose''] = []
   \<and> argv [''node'', ''server.js'', ''--verbose''] ''--port'' = VBool False
   \<and> argv [''node'', ''server.js''] ''--port'' = VNull"
  by code_simp




text \<open>
  C7, as amended. When the scan reaches a token that starts with \<^verbatim>\<open>--\<close>, holds
  no \<^verbatim>\<open>=\<close> and is the flag after trimming: if there is no next token, or the
  trimmed next token starts with \<^verbatim>\<open>--\<close>, \<^verbatim>\<open>argv\<close> returns \<^verbatim>\<open>true\<close>; otherwise, if
  the trimmed next token is not empty, \<^verbatim>\<open>argv\<close> returns the trimmed next token.
\<close>

theorem argv_bare_flag:
  assumes "scan_reaches flags flag index"
    and "startsWith ''--'' (flags ! index)"
    and "\<not> str_includes CHR ''='' (flags ! index)"
    and "trim (flags ! index) = flag"
  shows "(length flags \<le> Suc index \<or> startsWith ''--'' (trim (flags ! Suc index))
            \<longrightarrow> argv flags flag = VBool True)
       \<and> (Suc index < length flags \<and> \<not> startsWith ''--'' (trim (flags ! Suc index))
            \<and> trim (flags ! Suc index) \<noteq> []
            \<longrightarrow> argv flags flag = VString (trim (flags ! Suc index)))"
proof (intro conjI impI)
  assume "length flags \<le> Suc index \<or> startsWith ''--'' (trim (flags ! Suc index))"
  then have "loop_body flags flag index = Some (VBool True)"
    using loop_body_bare [OF assms(2,3), of flag] assms(4) by auto
  with assms(1) show "argv flags flag = VBool True" by (rule argv_returns_at)
next
  assume "Suc index < length flags \<and> \<not> startsWith ''--'' (trim (flags ! Suc index))
            \<and> trim (flags ! Suc index) \<noteq> []"
  then have "loop_body flags flag index = Some (VString (trim (flags ! Suc index)))"
    using loop_body_bare [OF assms(2,3), of flag] assms(4) by auto
  with assms(1) show "argv flags flag = VString (trim (flags ! Suc index))"
    by (rule argv_returns_at)
qed

theorem argv_bare_flag_witness:
  "scan_reaches [''node'', ''server.js'', ''--port'', ''4242 ''] ''--port'' 2
   \<and> argv [''node'', ''server.js'', ''--port'', ''4242 ''] ''--port'' = VString ''4242''
   \<and> scan_reaches [''node'', ''server.js'', ''--verbose'', '' --port'', ''4242''] ''--verbose'' 2
   \<and> argv [''node'', ''server.js'', ''--verbose'', '' --port'', ''4242''] ''--verbose''
       = VBool True
   \<and> scan_reaches [''node'', ''server.js'', ''--verbose''] ''--verbose'' 2
   \<and> argv [''node'', ''server.js'', ''--verbose''] ''--verbose'' = VBool True"
proof -
  let ?f1 = "[''node'', ''server.js'', ''--port'', ''4242 '']"
  let ?f2 = "[''node'', ''server.js'', ''--verbose'', '' --port'', ''4242'']"
  let ?f3 = "[''node'', ''server.js'', ''--verbose'']"
  have r1: "scan_reaches ?f1 ''--port'' 2" by code_simp
  have r2: "scan_reaches ?f2 ''--verbose'' 2" by code_simp
  have r3: "scan_reaches ?f3 ''--verbose'' 2" by code_simp
  have t: "trim ''--port'' = ''--port''" "trim ''--verbose'' = ''--verbose''"
    "trim ''4242 '' = ''4242''" "trim '' --port'' = ''--port''"
    by code_simp+
  have "argv ?f1 ''--port'' = VString ''4242''"
    using argv_bare_flag [OF r1] t by (simp add: startsWith_def str_includes_def)
  moreover have "argv ?f2 ''--verbose'' = VBool True"
    using argv_bare_flag [OF r2] t by (simp add: startsWith_def str_includes_def)
  moreover have "argv ?f3 ''--verbose'' = VBool True"
    using argv_bare_flag [OF r3] t by (simp add: startsWith_def str_includes_def)
  ultimately show ?thesis using r1 r2 r3 by simp
qed

text \<open>
  The claim as written fails when the next token is \<^verbatim>\<open>--port\<close> behind a space: that
  token does not start with \<^verbatim>\<open>--\<close> and is not empty after trimming, so the claim
  gives the string \<^verbatim>\<open>--port\<close>; the code tests the trimmed token and returns
  \<^verbatim>\<open>true\<close>.
\<close>

theorem argv_bare_flag_counterexample:
  "trim ''--verbose'' = ''--verbose''
   \<and> \<not> startsWith ''--'' '' --port''
   \<and> trim '' --port'' = ''--port''
   \<and> argv [''--verbose'', '' --port''] ''--verbose'' = VBool True
   \<and> argv [''--verbose'', '' --port''] ''--verbose'' \<noteq> VString ''--port''"
  by code_simp

text \<open>
  C9. Some token list and flag make \<^verbatim>\<open>argv\<close> return \<^verbatim>\<open>false\<close>; and whenever the
  scan reaches a token that starts with \<^verbatim>\<open>--\<close>, holds no \<^verbatim>\<open>=\<close> and is not the flag
  (under the comparison the scanner makes, which trims the token), \<^verbatim>\<open>argv\<close> returns
  \<^verbatim>\<open>false\<close> at that token.
\<close>

theorem argv_false_outcome:
  "(\<exists>fs f. argv fs f = VBool False)
   \<and> (scan_reaches flags flag index
        \<and> startsWith ''--'' (flags ! index)
        \<and> \<not> str_includes CHR ''='' (flags ! index)
        \<and> trim (flags ! index) \<noteq> flag
      \<longrightarrow> loop_body flags flag index = Some (VBool False) \<and> argv flags flag = VBool False)"
proof (intro conjI impI)
  have "argv [''--verbose''] ''--port'' = VBool False" by code_simp
  then show "\<exists>fs f. argv fs f = VBool False" by blast
next
  assume h: "scan_reaches flags flag index
        \<and> startsWith ''--'' (flags ! index)
        \<and> \<not> str_includes CHR ''='' (flags ! index)
        \<and> trim (flags ! index) \<noteq> flag"
  then show "loop_body flags flag index = Some (VBool False)"
    using loop_body_bare [of flags index flag] by auto
  with h show "argv flags flag = VBool False" by (auto intro: argv_returns_at)
qed

theorem argv_false_outcome_witness:
  "scan_reaches [''node'', ''server.js'', ''--open'', ''--port'', ''4242''] ''--port'' 2
   \<and> argv [''node'', ''server.js'', ''--open'', ''--port'', ''4242''] ''--port'' = VBool False"
proof -
  let ?flags = "[''node'', ''server.js'', ''--open'', ''--port'', ''4242'']"
  have r: "scan_reaches ?flags ''--port'' 2" by code_simp
  have t: "trim ''--open'' = ''--open''" by code_simp
  show ?thesis
    using r t argv_false_outcome [of ?flags "''--port''" 2]
    by (simp add: startsWith_def str_includes_def)
qed

text \<open>
  C10, as amended. When the scan reaches a token \<^verbatim>\<open>key=v1=v2\<close> whose key starts
  with \<^verbatim>\<open>--\<close> and is the flag after trimming, \<^verbatim>\<open>argv\<close> returns the segment \<^verbatim>\<open>v1\<close>
  between the first and the second \<^verbatim>\<open>=\<close> trimmed, and \<^verbatim>\<open>null\<close> when that segment
  is empty; what follows the second \<^verbatim>\<open>=\<close> is dropped, so the result is never the
  rest of the token behind the first \<^verbatim>\<open>=\<close>.
\<close>

theorem argv_assignment_second_equals:
  assumes "scan_reaches flags flag index"
    and "flags ! index = key @ ''='' @ v1 @ ''='' @ v2"
    and "startsWith ''--'' key"
    and "CHR ''='' \<notin> set key" and "CHR ''='' \<notin> set v1"
    and "trim key = flag"
  shows "argv flags flag = (if v1 = [] then VNull else VString (trim v1))
         \<and> argv flags flag \<noteq> VString (trim (v1 @ ''='' @ v2))"
proof -
  have "split CHR ''='' (v1 @ ''='' @ v2) = v1 # split CHR ''='' v2"
    using assms(5) by (simp add: split_append_sep)
  then have "loop_body flags flag index = Some (if v1 = [] then VNull else VString (trim v1))"
    using loop_body_assignment [of flags index key "v1 @ ''='' @ v2" flag] assms(2,3,4,6)
    by auto
  with assms(1) have res: "argv flags flag = (if v1 = [] then VNull else VString (trim v1))"
    by (rule argv_returns_at)
  have "CHR ''='' \<in> set (trim (v1 @ ''='' @ v2))"
    by (rule trim_keeps) (simp_all add: isWhiteSpace_def)
  moreover have "CHR ''='' \<notin> set (trim v1)"
    using assms(5) trim_subset [of v1] by auto
  ultimately have "trim v1 \<noteq> trim (v1 @ ''='' @ v2)" by metis
  with res show ?thesis by simp
qed

theorem argv_assignment_second_equals_witness:
  "scan_reaches [''node'', ''server.js'', ''--env=A=1''] ''--env'' 2
   \<and> argv [''node'', ''server.js'', ''--env=A=1''] ''--env'' = VString ''A''
   \<and> argv [''node'', ''server.js'', ''--env=A=1''] ''--env'' \<noteq> VString ''A=1''"
proof -
  let ?flags = "[''node'', ''server.js'', ''--env=A=1'']"
  have r: "scan_reaches ?flags ''--env'' 2" by code_simp
  have t1: "trim ''--env'' = ''--env''" by code_simp
  have t2: "trim ''A'' = ''A''" by code_simp
  have t3: "trim ''A=1'' = ''A=1''" by code_simp
  show ?thesis
    using r argv_assignment_second_equals [OF r, of "''--env''" "''A''" "''1''"] t1 t2 t3
    by (simp add: startsWith_def)
qed

text \<open>
  The claim as written fails for the matching token \<^verbatim>\<open>--env==1\<close>: the segment
  between the first and the second \<^verbatim>\<open>=\<close> is the empty string, and the result is
  \<^verbatim>\<open>null\<close>, not that string. It fails as well for \<^verbatim>\<open>--env= A =1\<close>, where the
  segment is \<^verbatim>\<open>A\<close> between two spaces and the result is \<^verbatim>\<open>A\<close> without them.
\<close>

theorem argv_assignment_second_equals_counterexample:
  "matches_flag ''--env'' ''--env==1''
   \<and> split CHR ''='' ''--env==1'' = [''--env'', [], ''1'']
   \<and> argv [''node'', ''server.js'', ''--env==1''] ''--env'' = VNull
   \<and> argv [''node'', ''server.js'', ''--env==1''] ''--env'' \<noteq> VString []
   \<and> matches_flag ''--env'' ''--env= A =1''
   \<and> split CHR ''='' ''--env= A =1'' = [''--env'', '' A '', ''1'']
   \<and> argv [''node'', ''server.js'', ''--env= A =1''] ''--env'' = VString ''A''
   \<and> argv [''node'', ''server.js'', ''--env= A =1''] ''--env'' \<noteq> VString '' A ''"
  by code_simp

subsection \<open>Claims about \<^verbatim>\<open>registerProcessExit\<close>\<close>

lemma fn_terminated: "terminated r \<Longrightarrow> fn body ts r = r"
  by (induction ts) simp_all

lemma wrapper_first:
  "\<not> terminated r \<Longrightarrow>
   wrapper body r = r\<lparr>terminated := True, invocations := invocations r @ [True]\<rparr>"
  by (simp add: fn_terminated)

lemma emit_wrapper: "emit body t r = wrapper body r"
  by (cases t) simp_all

lemma deliver_terminated: "terminated r \<Longrightarrow> deliver body ts r = r"
  by (induction ts) (simp_all add: emit_wrapper)

lemma deliver_first:
  "\<not> terminated r \<Longrightarrow> ts \<noteq> [] \<Longrightarrow>
   deliver body ts r = r\<lparr>terminated := True, invocations := invocations r @ [True]\<rparr>"
  by (cases ts)
     (simp_all add: emit_wrapper wrapper_first deliver_terminated del: wrapper.simps)

text \<open>
  C4. For a callback of any behaviour (whatever triggers it raises itself while it
  runs) and any sequence of triggers delivered to a fresh registration, the callback
  is called at most once (exactly once when a trigger is delivered at all), and at
  the moment of the call the guard \<^verbatim>\<open>terminated\<close> is already true.
\<close>

theorem registerProcessExit_once:
  "invocations (deliver body ts registerProcessExit) = (if ts = [] then [] else [True])
   \<and> length (invocations (deliver body ts registerProcessExit)) \<le> 1"
proof (cases "ts = []")
  case True
  then show ?thesis by (simp add: registerProcessExit_def)
next
  case False
  then show ?thesis
    using deliver_first [of registerProcessExit ts body]
    by (simp add: registerProcessExit_def)
qed

theorem registerProcessExit_once_witness:
  "deliver [EXIT, SIGINT] [SIGINT, SIGTERM, EXIT] registerProcessExit
     = \<lparr>terminated = True, invocations = [True]\<rparr>"
  using registerProcessExit_once [of "[EXIT, SIGINT]" "[SIGINT, SIGTERM, EXIT]"]
  by code_simp

subsection \<open>Claims about \<^verbatim>\<open>createStartupScriptCommand\<close>\<close>

lemma posix_resolve_absolute: "path_isAbsolute posix (path_resolve posix base p)"
  by (cases base) (auto simp: posix_def startsWith_def)

text \<open>
  C3. For a reference without \<^verbatim>\<open>:\<close>, the path is the reference itself when it is
  absolute and otherwise the reference resolved against \<^verbatim>\<open>appLocation\<close>, or against
  the working directory when \<^verbatim>\<open>appLocation\<close> is unset. If that path exists it is
  returned and the logger is not called; it is an absolute path, \<^verbatim>\<open>path.resolve\<close>
  giving absolute paths. If it does not exist, \<^verbatim>\<open>null\<close> is returned and the logger
  receives exactly one call of \<^verbatim>\<open>error\<close>, with the fatal flag set.
\<close>

theorem createStartupScriptCommand_path:
  assumes "\<not> str_includes CHR '':'' startupScript"
  shows "(fs_existsSync nd (resolved nd startupScript options) \<longrightarrow>
            createStartupScriptCommand nd startupScript options lg
              = (Some (resolved nd startupScript options), lg))
       \<and> (\<not> fs_existsSync nd (resolved nd startupScript options) \<longrightarrow>
            createStartupScriptCommand nd startupScript options lg
              = (None,
                 lg @ [(''Script file '' @ [CHR 0x22] @ resolved nd startupScript options
                          @ [CHR 0x22] @ '' was not found.'', True)]))
       \<and> ((\<forall>base p. path_isAbsolute nd (path_resolve nd base p)) \<longrightarrow>
            path_isAbsolute nd (resolved nd startupScript options))"
  using assms
  by (cases "appLocation options")
     (auto simp: createStartupScriptCommand_def resolved_def logger_error_def Let_def)

theorem createStartupScriptCommand_path_witness:
  "createStartupScriptCommand posix ''dist/server.js'' \<lparr>appLocation = Some ''/app''\<rparr> []
     = (Some ''/app/dist/server.js'', [])
   \<and> path_isAbsolute posix ''/app/dist/server.js''
   \<and> createStartupScriptCommand posix ''missing.js'' \<lparr>appLocation = None\<rparr> []
     = (None, [(''Script file '' @ [CHR 0x22] @ ''/home/user/missing.js'' @ [CHR 0x22]
                 @ '' was not found.'', True)])"
proof -
  have r: "resolved posix ''dist/server.js'' \<lparr>appLocation = Some ''/app''\<rparr>
             = ''/app/dist/server.js''"
    "resolved posix ''missing.js'' \<lparr>appLocation = None\<rparr> = ''/home/user/missing.js''"
    by code_simp+
  have e: "fs_existsSync posix ''/app/dist/server.js''"
    "\<not> fs_existsSync posix ''/home/user/missing.js''"
    by code_simp+
  have a: "\<forall>base p. path_isAbsolute posix (path_resolve posix base p)"
    by (simp add: posix_resolve_absolute)
  show ?thesis
    using createStartupScriptCommand_path
        [of "''dist/server.js''" posix "\<lparr>appLocation = Some ''/app''\<rparr>" "[]"]
      createStartupScriptCommand_path
        [of "''missing.js''" posix "\<lparr>appLocation = None\<rparr>" "[]"]
      r e a
    by (simp add: str_includes_def)
qed

text \<open>
  C5. For a reference with a \<^verbatim>\<open>:\<close>, split at every \<^verbatim>\<open>:\<close> into a first segment (the
  binary) and the remaining segments: the reference is the binary, a \<^verbatim>\<open>:\<close> and the
  remaining segments joined with \<^verbatim>\<open>:\<close>; for the binaries \<^verbatim>\<open>npm\<close> and \<^verbatim>\<open>yarn\<close> the
  result is \<^verbatim>\<open><binary> run <script> --if-present\<close>, and for \<^verbatim>\<open>npx\<close> it is
  \<^verbatim>\<open>npx <script>\<close>, where the script is that joined remainder. The logger is not
  called.
\<close>

theorem createStartupScriptCommand_package_manager:
  assumes "str_includes CHR '':'' startupScript"
    and "split CHR '':'' startupScript = bin # script"
  shows "startupScript = bin @ '':'' @ join '':'' script
       \<and> (bin = ''npm'' \<or> bin = ''yarn'' \<longrightarrow>
            createStartupScriptCommand nd startupScript options lg
              = (Some (bin @ '' run '' @ join '':'' script @ '' --if-present''), lg))
       \<and> (bin = ''npx'' \<longrightarrow>
            createStartupScriptCommand nd startupScript options lg
              = (Some (''npx '' @ join '':'' script), lg))"
proof -
  from assms(1) obtain s0 s1 ss where "split CHR '':'' startupScript = s0 # s1 # ss"
    unfolding str_includes_def using split_with_sep by blast
  with assms(2) have "script \<noteq> []" by auto
  with assms(2) have "startupScript = bin @ '':'' @ join '':'' script"
    using split_head_tail [of "CHR '':''" startupScript bin script] by simp
  moreover have "bin = ''npm'' \<or> bin = ''yarn'' \<longrightarrow>
            createStartupScriptCommand nd startupScript options lg
              = (Some (bin @ '' run '' @ join '':'' script @ '' --if-present''), lg)"
    using assms by (auto simp: createStartupScriptCommand_def)
  moreover have "bin = ''npx'' \<longrightarrow>
            createStartupScriptCommand nd startupScript options lg
              = (Some (''npx '' @ join '':'' script), lg)"
    using assms by (auto simp: createStartupScriptCommand_def)
  ultimately show ?thesis by blast
qed

theorem createStartupScriptCommand_package_manager_witness:
  "createStartupScriptCommand posix ''npm:build:prod'' \<lparr>appLocation = None\<rparr> []
     = (Some ''npm run build:prod --if-present'', [])
   \<and> createStartupScriptCommand posix ''yarn:start'' \<lparr>appLocation = None\<rparr> []
     = (Some ''yarn run start --if-present'', [])
   \<and> createStartupScriptCommand posix ''npx:vite'' \<lparr>appLocation = None\<rparr> []
     = (Some ''npx vite'', [])"
proof -
  have s: "split CHR '':'' ''npm:build:prod'' = [''npm'', ''build'', ''prod'']"
    "split CHR '':'' ''yarn:start'' = [''yarn'', ''start'']"
    "split CHR '':'' ''npx:vite'' = [''npx'', ''vite'']"
    by code_simp+
  show ?thesis
    using createStartupScriptCommand_package_manager
        [OF _ s(1), of posix "\<lparr>appLocation = None\<rparr>" "[]"]
      createStartupScriptCommand_package_manager
        [OF _ s(2), of posix "\<lparr>appLocation = None\<rparr>" "[]"]
      createStartupScriptCommand_package_manager
        [OF _ s(3), of posix "\<lparr>appLocation = None\<rparr>" "[]"]
    by (simp add: str_includes_def)
qed

text \<open>
  C8. For a reference with a \<^verbatim>\<open>:\<close> whose first segment is none of \<^verbatim>\<open>npm\<close>,
  \<^verbatim>\<open>yarn\<close> and \<^verbatim>\<open>npx\<close>, the result is \<^verbatim>\<open>null\<close> and the logger is left as it was:
  no call is made to it.
\<close>

theorem createStartupScriptCommand_unknown_binary:
  assumes "str_includes CHR '':'' startupScript"
    and "split CHR '':'' startupScript = bin # script"
    and "bin \<noteq> ''npm''" and "bin \<noteq> ''yarn''" and "bin \<noteq> ''npx''"
  shows "createStartupScriptCommand nd startupScript options lg = (None, lg)"
  using assms by (simp add: createStartupScriptCommand_def)

theorem createStartupScriptCommand_unknown_binary_witness:
  "str_includes CHR '':'' ''pnpm:dev''
   \<and> split CHR '':'' ''pnpm:dev'' = [''pnpm'', ''dev'']
   \<and> createStartupScriptCommand posix ''pnpm:dev'' \<lparr>appLocation = Some ''/app''\<rparr> []
       = (None, [])"
proof -
  have i: "str_includes CHR '':'' ''pnpm:dev''" by code_simp
  have s: "split CHR '':'' ''pnpm:dev'' = [''pnpm'', ''dev'']" by code_simp
  show ?thesis
    using i s createStartupScriptCommand_unknown_binary
        [OF i s, of posix "\<lparr>appLocation = Some ''/app''\<rparr>" "[]"]
    by simp
qed

end
